theory Spec2Isabelle
  imports Main
begin

section \<open>Desktop file organizer: strings and path names\<close>

text \<open>
  The development follows \<^verbatim>\<open>src/desktop_organizer.py\<close>. File names are strings over
  the characters with code points below 256. A path (\<^verbatim>\<open>pathlib.Path\<close>) is the list of
  its components (strings without a separator), so \<^verbatim>\<open>p / c\<close> appends a component,
  \<^verbatim>\<open>p.name\<close> is the last component and \<^verbatim>\<open>p.parent\<close> drops it.
\<close>

type_synonym path = "string list"

definition joinpath :: "path \<Rightarrow> string \<Rightarrow> path" where
  \<comment> \<open>\<^verbatim>\<open>p / c\<close> for a component \<open>c\<close> without separator: pathlib drops an empty
      component and a lone dot.\<close>
  "joinpath p c = (if c = [] \<or> c = ''.'' then p else p @ [c])"

definition name_of :: "path \<Rightarrow> string" where
  \<comment> \<open>\<^verbatim>\<open>Path.name\<close>: the final component, the empty string for a path without one.\<close>
  "name_of p = (case rev p of [] \<Rightarrow> [] | c # _ \<Rightarrow> c)"

definition parent_of :: "path \<Rightarrow> path" where
  "parent_of p = butlast p"

definition lower_char :: "char \<Rightarrow> char" where
  \<comment> \<open>\<^verbatim>\<open>str.lower\<close> on one character below code point 256: A-Z, and the Latin-1
      capitals 192..222 except the multiplication sign 215, move up by 32, which sets
      the bit of weight 32.\<close>
  "lower_char c =
     (let n = (of_char c :: nat)
      in if (65 \<le> n \<and> n \<le> 90) \<or> (192 \<le> n \<and> n \<le> 222 \<and> n \<noteq> 215)
         then (case c of Char b0 b1 b2 b3 b4 b5 b6 b7 \<Rightarrow> Char b0 b1 b2 b3 b4 True b6 b7)
         else c)"

definition lower :: "string \<Rightarrow> string" where
  "lower s = map lower_char s"

fun rfind :: "char \<Rightarrow> string \<Rightarrow> int" where
  \<comment> \<open>\<^verbatim>\<open>str.rfind\<close> for a one-character needle: the highest index, or -1.\<close>
  "rfind c [] = - 1"
| "rfind c (x # xs) =
     (let r = rfind c xs
      in if 0 \<le> r then r + 1 else if x = c then 0 else - 1)"

definition suffix_of :: "string \<Rightarrow> string" where
  \<comment> \<open>\<^verbatim>\<open>PurePath.suffix\<close> of a path whose name is \<open>name\<close> (pathlib of Python 3.9 to 3.13):
      \<^verbatim>\<open>i = name.rfind('.'); name[i:] if 0 < i < len(name) - 1 else ''\<close>.\<close>
  "suffix_of name =
     (let i = rfind CHR ''.'' name
      in if 0 < i \<and> i < int (length name) - 1 then drop (nat i) name else [])"

definition stem_of :: "string \<Rightarrow> string" where
  \<comment> \<open>\<^verbatim>\<open>PurePath.stem\<close>: \<^verbatim>\<open>name[:i]\<close> under the same test, the whole name otherwise.\<close>
  "stem_of name =
     (let i = rfind CHR ''.'' name
      in if 0 < i \<and> i < int (length name) - 1 then take (nat i) name else name)"

section \<open>FileCategorizer\<close>

definition CATEGORIES :: "(string \<times> string list) list" where
  \<comment> \<open>The dictionary literal, in declaration order (the order \<^verbatim>\<open>items()\<close> yields).\<close>
  "CATEGORIES =
     [(''Images'', [''.jpg'', ''.jpeg'', ''.png'', ''.gif'', ''.bmp'', ''.svg'', ''.ico'']),
      (''Documents'', [''.pdf'', ''.doc'', ''.docx'', ''.txt'', ''.xlsx'', ''.pptx'', ''.odt'']),
      (''Videos'', [''.mp4'', ''.avi'', ''.mkv'', ''.mov'', ''.wmv'', ''.flv'']),
      (''Music'', [''.mp3'', ''.wav'', ''.flac'', ''.aac'', ''.ogg'', ''.wma'']),
      (''Archives'', [''.zip'', ''.rar'', ''.7z'', ''.tar'', ''.gz'']),
      (''Code'', [''.py'', ''.js'', ''.html'', ''.css'', ''.java'', ''.cpp'', ''.c'', ''.ts'', ''.json''])]"


fun search_categories :: "string \<Rightarrow> (string \<times> string list) list \<Rightarrow> string" where
  \<comment> \<open>The \<^verbatim>\<open>for category, extensions in ...items()\<close> loop and the return after it.\<close>
  "search_categories extension [] = ''Miscellaneous''"
| "search_categories extension ((category, extensions) # rest) =
     (if extension \<in> set extensions then category
      else search_categories extension rest)"

definition categorize_file :: "path \<Rightarrow> string" where
  "categorize_file file_path =
     (let extension = lower (suffix_of (name_of file_path))
      in if extension = [] then ''Miscellaneous''
         else search_categories extension CATEGORIES)"

section \<open>Exceptions and the file system\<close>

text \<open>
  The exceptions the program's handlers tell apart. All but the last are \<^verbatim>\<open>OSError\<close> or
  one of its subclasses; the last stands for any other \<^verbatim>\<open>Exception\<close>. Each carries the
  text \<^verbatim>\<open>str(e)\<close>.
\<close>

datatype exn =
    FileNotFoundError string
  | FileExistsError string
  | NotADirectoryError string
  | PermissionError string
  | OSError string
  | OtherException string

fun str_exn :: "exn \<Rightarrow> string" where
  "str_exn (FileNotFoundError m) = m"
| "str_exn (FileExistsError m) = m"
| "str_exn (NotADirectoryError m) = m"
| "str_exn (PermissionError m) = m"
| "str_exn (OSError m) = m"
| "str_exn (OtherException m) = m"

fun is_PermissionError :: "exn \<Rightarrow> bool" where
  "is_PermissionError (PermissionError m) = True"
| "is_PermissionError e = False"

fun is_OSError :: "exn \<Rightarrow> bool" where
  "is_OSError (OtherException m) = False"
| "is_OSError e = True"

text \<open>
  The file system is a finite table from paths to nodes, read with \<open>map_of\<close> (the first
  binding of a path counts). A regular file carries its content. What the platform may
  refuse for reasons outside the table (access rights, a file in use) is fixed by a
  record of faults: which directories cannot be listed, which folders cannot be created,
  and which renames, copies and removals raise which exception.
\<close>

datatype node = File string | Dir

type_synonym filesystem = "(path \<times> node) list"

record os_faults =
  list_denied :: "path \<Rightarrow> bool"
  mkdir_denied :: "path \<Rightarrow> bool"
  rename_fault :: "path \<Rightarrow> path \<Rightarrow> exn option"
  copy_fault :: "path \<Rightarrow> path \<Rightarrow> exn option"
  unlink_fault :: "path \<Rightarrow> exn option"

definition path_exists :: "filesystem \<Rightarrow> path \<Rightarrow> bool" where
  "path_exists fs p = (map_of fs p \<noteq> None)"

definition is_file :: "filesystem \<Rightarrow> path \<Rightarrow> bool" where
  "is_file fs p = (case map_of fs p of Some (File c) \<Rightarrow> True | _ \<Rightarrow> False)"

definition is_dir :: "filesystem \<Rightarrow> path \<Rightarrow> bool" where
  "is_dir fs p = (map_of fs p = Some Dir)"

definition str_path :: "path \<Rightarrow> string" where
  "str_path p = concat (map (\<lambda>c. CHR ''/'' # c) p)"

definition iterdir :: "os_faults \<Rightarrow> filesystem \<Rightarrow> path \<Rightarrow> exn + path list" where
  \<comment> \<open>\<^verbatim>\<open>Path.iterdir\<close>: the immediate entries of a directory, each once.\<close>
  "iterdir flt fs d =
     (if \<not> path_exists fs d then Inl (FileNotFoundError (''No such file or directory: '' @ str_path d))
      else if \<not> is_dir fs d then Inl (NotADirectoryError (''Not a directory: '' @ str_path d))
      else if list_denied flt d then Inl (PermissionError (''Permission denied: '' @ str_path d))
      else Inr (remdups (filter (\<lambda>p. p \<noteq> [] \<and> parent_of p = d) (map fst fs))))"

definition os_mkdir :: "os_faults \<Rightarrow> filesystem \<Rightarrow> path \<Rightarrow> exn + filesystem" where
  "os_mkdir flt fs p =
     (if path_exists fs p then Inl (FileExistsError (''File exists: '' @ str_path p))
      else if \<not> path_exists fs (parent_of p)
        then Inl (FileNotFoundError (''No such file or directory: '' @ str_path p))
      else if \<not> is_dir fs (parent_of p)
        then Inl (NotADirectoryError (''Not a directory: '' @ str_path p))
      else if mkdir_denied flt p then Inl (PermissionError (''Permission denied: '' @ str_path p))
      else Inr (fs @ [(p, Dir)]))"

definition mkdir_exist_ok :: "os_faults \<Rightarrow> filesystem \<Rightarrow> path \<Rightarrow> exn + filesystem" where
  \<comment> \<open>\<^verbatim>\<open>Path.mkdir(exist_ok=True)\<close>, \<^verbatim>\<open>parents\<close> left False: \<^verbatim>\<open>FileNotFoundError\<close> is raised
      again, any other \<^verbatim>\<open>OSError\<close> is swallowed when the path is a directory.\<close>
  "mkdir_exist_ok flt fs p =
     (case os_mkdir flt fs p of
        Inr fs' \<Rightarrow> Inr fs'
      | Inl (FileNotFoundError m) \<Rightarrow> Inl (FileNotFoundError m)
      | Inl e \<Rightarrow> if is_OSError e \<and> is_dir fs p then Inr fs else Inl e)"

definition starts_with :: "path \<Rightarrow> path \<Rightarrow> bool" where
  \<comment> \<open>\<open>q\<close> is \<open>src\<close> or lies below it.\<close>
  "starts_with src q = (take (length src) q = src)"

definition rename_path :: "filesystem \<Rightarrow> path \<Rightarrow> path \<Rightarrow> filesystem" where
  \<comment> \<open>One rename: the entry at \<open>src\<close>, and whatever lies below it, is found at \<open>dst\<close>.\<close>
  "rename_path fs src dst =
     map (\<lambda>(q, n). (if starts_with src q then dst @ drop (length src) q else q, n)) fs"

definition shutil_move ::
  "os_faults \<Rightarrow> filesystem \<Rightarrow> path \<Rightarrow> path \<Rightarrow> exn \<times> filesystem + filesystem" where
  \<comment> \<open>\<^verbatim>\<open>shutil.move(src, dst)\<close> as in CPython 3.9 to 3.13: \<^verbatim>\<open>os.rename\<close>; when the rename
      raises an \<^verbatim>\<open>OSError\<close> and the source is a regular file, the file is copied with
      \<^verbatim>\<open>copy2\<close> and the source is then removed with \<^verbatim>\<open>os.unlink\<close>. \<open>Inl\<close> holds the
      exception and the file system it leaves behind, \<open>Inr\<close> the file system after the
      move. When the copy is made and the removal raises, the copy stays at the
      destination. A copy followed by the removal has the effect of the rename. For a
      directory, which the organizer never moves, only the rename is modelled.
      \<^verbatim>\<open>move_file\<close> only passes a destination that does not exist; an existing one is
      reported as on Windows.\<close>
  "shutil_move flt fs src dst =
     (case map_of fs src of
        None \<Rightarrow> Inl (FileNotFoundError (''No such file or directory: '' @ str_path src), fs)
      | Some n \<Rightarrow>
          if path_exists fs dst then Inl (FileExistsError (''File exists: '' @ str_path dst), fs)
          else if starts_with src dst
            then Inl (OSError (''Cannot move a directory into itself: '' @ str_path src), fs)
          else if \<not> is_dir fs (parent_of dst)
            then Inl (FileNotFoundError (''No such file or directory: '' @ str_path dst), fs)
          else (case rename_fault flt src dst of
                  None \<Rightarrow> Inr (rename_path fs src dst)
                | Some e \<Rightarrow>
                    if \<not> is_OSError e then Inl (e, fs)
                    else (case n of
                            Dir \<Rightarrow> Inl (e, fs)
                          | File content \<Rightarrow>
                              (case copy_fault flt src dst of
                                 Some e_copy \<Rightarrow> Inl (e_copy, fs)
                               | None \<Rightarrow>
                                   (case unlink_fault flt src of
                                      Some e_unlink \<Rightarrow> Inl (e_unlink, fs @ [(dst, File content)])
                                    | None \<Rightarrow> Inr (rename_path fs src dst))))))"

section \<open>FileScanner and FolderManager\<close>

definition scan_files :: "os_faults \<Rightarrow> filesystem \<Rightarrow> path \<Rightarrow> exn + path list" where
  "scan_files flt fs desktop_path =
     (if \<not> path_exists fs desktop_path
        then Inl (FileNotFoundError (''Desktop path does not exist: '' @ str_path desktop_path))
      else (case iterdir flt fs desktop_path of
              Inl e \<Rightarrow> Inl e
            | Inr items \<Rightarrow> Inr (filter (is_file fs) items)))"

definition create_category_folder ::
  "os_faults \<Rightarrow> filesystem \<Rightarrow> path \<Rightarrow> string \<Rightarrow> exn + filesystem \<times> path" where
  "create_category_folder flt fs base_path category_name =
     (let folder_path = joinpath base_path category_name
      in case mkdir_exist_ok flt fs folder_path of
           Inl e \<Rightarrow> Inl e
         | Inr fs' \<Rightarrow> Inr (fs', folder_path))"

section \<open>FileMover\<close>

text \<open>
  The counter of \<^verbatim>\<open>_resolve_name_conflict\<close> is printed in decimal. The search loop
  \<^verbatim>\<open>while True\<close> ends because the table is finite and the candidate names of different
  counters differ; the lemmas before its termination proof say so.
\<close>

definition digit_char :: "nat \<Rightarrow> char" where
  "digit_char d = ''0123456789'' ! d"

fun str_of_nat :: "nat \<Rightarrow> string" where
  "str_of_nat n =
     (if n < 10 then [digit_char n] else str_of_nat (n div 10) @ [digit_char (n mod 10)])"

declare str_of_nat.simps [simp del]

lemma digit_char_inj: "d < 10 \<Longrightarrow> e < 10 \<Longrightarrow> digit_char d = digit_char e \<Longrightarrow> d = e"
proof -
  assume d: "d < 10" and e: "e < 10" and eq: "digit_char d = digit_char e"
  have dist: "distinct ''0123456789''" by simp
  have len: "length ''0123456789'' = 10" by simp
  from eq have "''0123456789'' ! d = ''0123456789'' ! e" by (simp add: digit_char_def)
  with dist d e len show "d = e" by (metis nth_eq_iff_index_eq)
qed

lemma str_of_nat_nonempty: "str_of_nat n \<noteq> []"
  by (subst str_of_nat.simps) simp

lemma str_of_nat_inj: "str_of_nat m = str_of_nat n \<Longrightarrow> m = n"
proof (induction m arbitrary: n rule: str_of_nat.induct)
  case (1 m)
  show ?case
  proof (cases "m < 10")
    case True
    then have sm: "str_of_nat m = [digit_char m]" by (subst str_of_nat.simps) simp
    show ?thesis
    proof (cases "n < 10")
      case nlt: True
      then have "str_of_nat n = [digit_char n]" by (subst str_of_nat.simps) simp
      with sm "1.prems" have "digit_char m = digit_char n" by simp
      with True nlt show ?thesis by (rule digit_char_inj)
    next
      case False
      then have "str_of_nat n = str_of_nat (n div 10) @ [digit_char (n mod 10)]"
        by (subst str_of_nat.simps) simp
      with sm "1.prems" have "str_of_nat (n div 10) = []" by simp
      then show ?thesis by (simp add: str_of_nat_nonempty)
    qed
  next
    case False
    then have sm: "str_of_nat m = str_of_nat (m div 10) @ [digit_char (m mod 10)]"
      by (subst str_of_nat.simps) simp
    show ?thesis
    proof (cases "n < 10")
      case True
      then have "str_of_nat n = [digit_char n]" by (subst str_of_nat.simps) simp
      with sm "1.prems" have "str_of_nat (m div 10) = []" by simp
      then show ?thesis by (simp add: str_of_nat_nonempty)
    next
      case nge: False
      then have "str_of_nat n = str_of_nat (n div 10) @ [digit_char (n mod 10)]"
        by (subst str_of_nat.simps) simp
      with sm "1.prems" have a: "str_of_nat (m div 10) = str_of_nat (n div 10)"
        and b: "digit_char (m mod 10) = digit_char (n mod 10)" by simp_all
      from "1.IH" [OF False a] have q: "m div 10 = n div 10" .
      have "m mod 10 = n mod 10" by (rule digit_char_inj [OF _ _ b]) simp_all
      with q show ?thesis by (metis div_mult_mod_eq)
    qed
  qed
qed

definition conflict_name :: "string \<Rightarrow> string \<Rightarrow> nat \<Rightarrow> string" where
  \<comment> \<open>\<^verbatim>\<open>f"{stem}_{counter}{suffix}"\<close>\<close>
  "conflict_name stem suffix counter = stem @ ''_'' @ str_of_nat counter @ suffix"

lemma conflict_name_inj: "conflict_name stem suffix j = conflict_name stem suffix k \<Longrightarrow> j = k"
  by (simp add: conflict_name_def str_of_nat_inj)

lemma conflict_name_plain:
  "conflict_name stem suffix k \<noteq> []" "conflict_name stem suffix k \<noteq> ''.''"
  by (simp_all add: conflict_name_def append_eq_Cons_conv)

lemma joinpath_conflict_name:
  "joinpath parent (conflict_name stem suffix k) = parent @ [conflict_name stem suffix k]"
  by (simp add: joinpath_def conflict_name_plain)

lemma finite_conflicts:
  "finite {k. path_exists fs (joinpath parent (conflict_name stem suffix k))}"
proof -
  let ?h = "\<lambda>k. joinpath parent (conflict_name stem suffix k)"
  have inj: "inj ?h"
    by (rule injI) (simp add: joinpath_conflict_name conflict_name_inj)
  have "{k. path_exists fs (?h k)} \<subseteq> ?h -` (fst ` set fs)"
    by (auto simp: path_exists_def map_of_eq_None_iff)
  moreover have "finite (?h -` (fst ` set fs))"
    by (rule finite_vimageI [OF _ inj]) simp
  ultimately show ?thesis by (rule finite_subset)
qed

function resolve_from :: "filesystem \<Rightarrow> path \<Rightarrow> string \<Rightarrow> string \<Rightarrow> nat \<Rightarrow> path" where
  "resolve_from fs parent stem suffix counter =
     (let new_name = conflict_name stem suffix counter;
          new_path = joinpath parent new_name
      in if \<not> path_exists fs new_path then new_path
         else resolve_from fs parent stem suffix (counter + 1))"
  by pat_completeness auto
termination
proof (relation "measure (\<lambda>(fs, parent, stem, suffix, counter).
    card {k. counter \<le> k \<and> path_exists fs (joinpath parent (conflict_name stem suffix k))})")
  show "wf (measure (\<lambda>(fs, parent, stem, suffix, counter).
    card {k. counter \<le> k \<and> path_exists fs (joinpath parent (conflict_name stem suffix k))}))"
    by simp
next
  fix fs :: filesystem and parent :: path and stem suffix :: string and counter :: nat
    and x xa
  assume x: "x = conflict_name stem suffix counter" and xa: "xa = joinpath parent x"
    and ex: "\<not> \<not> path_exists fs xa"
  let ?S = "\<lambda>c. {k. c \<le> k \<and> path_exists fs (joinpath parent (conflict_name stem suffix k))}"
  have fin: "finite (?S counter)"
    by (rule finite_subset [OF _ finite_conflicts [of fs parent stem suffix] ]) auto
  have "counter \<in> ?S counter" using x xa ex by simp
  moreover have "counter \<notin> ?S (counter + 1)" by simp
  moreover have "?S (counter + 1) \<subseteq> ?S counter" by auto
  ultimately have "?S (counter + 1) \<subset> ?S counter" by blast
  with fin have "card (?S (counter + 1)) < card (?S counter)" by (rule psubset_card_mono)
  then show "((fs, parent, stem, suffix, counter + 1), (fs, parent, stem, suffix, counter))
    \<in> measure (\<lambda>(fs, parent, stem, suffix, counter).
    card {k. counter \<le> k \<and> path_exists fs (joinpath parent (conflict_name stem suffix k))})"
    by simp
qed

declare resolve_from.simps [simp del]

definition resolve_name_conflict :: "filesystem \<Rightarrow> path \<Rightarrow> path" where
  "resolve_name_conflict fs destination =
     (let stem = stem_of (name_of destination);
          suffix = suffix_of (name_of destination);
          parent = parent_of destination
      in resolve_from fs parent stem suffix 1)"

definition move_destination :: "filesystem \<Rightarrow> path \<Rightarrow> path \<Rightarrow> path" where
  \<comment> \<open>The first statements of \<^verbatim>\<open>move_file\<close>: the destination, resolved when it is taken.\<close>
  "move_destination fs source destination_folder =
     (let destination = joinpath destination_folder (name_of source)
      in if path_exists fs destination then resolve_name_conflict fs destination
         else destination)"

definition move_file ::
  "os_faults \<Rightarrow> filesystem \<Rightarrow> path \<Rightarrow> path \<Rightarrow> filesystem \<times> bool \<times> string option" where
  \<comment> \<open>The result is the file system afterwards and the pair \<^verbatim>\<open>(success, error_message)\<close>;
      the three handlers are tried in the order of the source.\<close>
  "move_file flt fs source destination_folder =
     (case shutil_move flt fs source (move_destination fs source destination_folder) of
        Inr fs' \<Rightarrow> (fs', True, None)
      | Inl (e, fs') \<Rightarrow>
          (fs', False,
           Some (if is_PermissionError e then ''Permission denied: '' @ str_exn e
                 else if is_OSError e then ''OS error: '' @ str_exn e
                 else ''Unexpected error: '' @ str_exn e)))"

section \<open>OrganizationStats, OrganizationLogger and DesktopOrganizer\<close>

text \<open>
  The field \<^verbatim>\<open>duration\<close> of the statistics is a difference of clock readings and is left
  out. The dictionary \<^verbatim>\<open>category_counts\<close> is an association list in insertion order.
  The logger's printing is a trace of events; printing is taken not to raise.
\<close>

record OrganizationStats =
  total_files :: nat
  files_moved :: nat
  files_failed :: nat
  category_counts :: "(string \<times> nat) list"

datatype event =
    LogStart
  | LogFileMove string string
  | LogError string string
  | LogSummary OrganizationStats

definition dict_get :: "(string \<times> nat) list \<Rightarrow> string \<Rightarrow> nat \<Rightarrow> nat" where
  "dict_get d k dflt = (case map_of d k of None \<Rightarrow> dflt | Some v \<Rightarrow> v)"

fun dict_set :: "string \<Rightarrow> nat \<Rightarrow> (string \<times> nat) list \<Rightarrow> (string \<times> nat) list" where
  "dict_set k v [] = [(k, v)]"
| "dict_set k v ((k', v') # d) = (if k' = k then (k, v) # d else (k', v') # dict_set k v d)"

record run_state =
  rs_fs :: filesystem
  rs_moved :: nat
  rs_failed :: nat
  rs_counts :: "(string \<times> nat) list"
  rs_log :: "event list"

definition handler_message :: "exn \<Rightarrow> string" where
  \<comment> \<open>The three \<^verbatim>\<open>except\<close> clauses of the loop body in \<^verbatim>\<open>organize\<close>.\<close>
  "handler_message e =
     (if is_PermissionError e then ''Permission denied: '' @ str_exn e
      else if is_OSError e then ''OS error (file may be in use): '' @ str_exn e
      else ''Unexpected error: '' @ str_exn e)"

definition process_file :: "os_faults \<Rightarrow> path \<Rightarrow> path \<Rightarrow> run_state \<Rightarrow> run_state" where
  \<comment> \<open>One pass of the loop body.\<close>
  "process_file flt desktop_path file_path st =
     (let category = categorize_file file_path
      in case create_category_folder flt (rs_fs st) desktop_path category of
           Inl e \<Rightarrow>
             st\<lparr>rs_failed := rs_failed st + 1,
                rs_log := rs_log st @ [LogError (name_of file_path) (handler_message e)]\<rparr>
         | Inr (fs1, category_folder) \<Rightarrow>
             (case move_file flt fs1 file_path category_folder of
                (fs2, success, error_msg) \<Rightarrow>
                  if success
                  then st\<lparr>rs_fs := fs2,
                          rs_moved := rs_moved st + 1,
                          rs_counts := dict_set category (dict_get (rs_counts st) category 0 + 1)
                                         (rs_counts st),
                          rs_log := rs_log st @ [LogFileMove (name_of file_path) category]\<rparr>
                  else st\<lparr>rs_fs := fs2,
                          rs_failed := rs_failed st + 1,
                          rs_log := rs_log st @
                            [LogError (name_of file_path)
                               (case error_msg of
                                  None \<Rightarrow> ''Failed to move file''
                                | Some m \<Rightarrow> if m = [] then ''Failed to move file'' else m)]\<rparr>))"

fun process_files :: "os_faults \<Rightarrow> path \<Rightarrow> path list \<Rightarrow> run_state \<Rightarrow> run_state" where
  "process_files flt desktop_path [] st = st"
| "process_files flt desktop_path (file_path # files) st =
     process_files flt desktop_path files (process_file flt desktop_path file_path st)"

definition organize ::
  "os_faults \<Rightarrow> filesystem \<Rightarrow> path \<Rightarrow> exn + filesystem \<times> OrganizationStats \<times> event list" where
  \<comment> \<open>\<open>Inl\<close>: the exception that leaves \<^verbatim>\<open>organize\<close>; \<open>Inr\<close>: the file system afterwards,
      the returned statistics and everything that was logged.\<close>
  "organize flt fs desktop_path =
     (case scan_files flt fs desktop_path of
        Inl e \<Rightarrow> Inl e
      | Inr files \<Rightarrow>
          (let st = process_files flt desktop_path files
                      \<lparr>rs_fs = fs, rs_moved = 0, rs_failed = 0, rs_counts = [],
                       rs_log = [LogStart]\<rparr>;
               stats = \<lparr>total_files = length files,
                        files_moved = rs_moved st,
                        files_failed = rs_failed st,
                        category_counts = rs_counts st\<rparr>
           in Inr (rs_fs st, stats, rs_log st @ [LogSummary stats])))"

section \<open>Reading the log\<close>

text \<open>
  \<^verbatim>\<open>log_file_move\<close> is called exactly when a move succeeded and \<^verbatim>\<open>log_error\<close> exactly
  when a file failed, so the log tells which files were moved, into which category, and
  which failed. The functions below count and classify its events.
\<close>

fun is_move_into :: "string \<Rightarrow> event \<Rightarrow> bool" where
  "is_move_into k (LogFileMove filename category) = (category = k)"
| "is_move_into k ev = False"

definition moves_into :: "string \<Rightarrow> event list \<Rightarrow> nat" where
  "moves_into k evs = length (filter (is_move_into k) evs)"

fun is_move :: "event \<Rightarrow> bool" where
  "is_move (LogFileMove filename category) = True"
| "is_move ev = False"

fun is_error :: "event \<Rightarrow> bool" where
  "is_error (LogError filename msg) = True"
| "is_error ev = False"

fun outcome_of :: "path \<Rightarrow> event \<Rightarrow> bool" where
  "outcome_of file_path (LogFileMove filename category) =
     (filename = name_of file_path \<and> category = categorize_file file_path)"
| "outcome_of file_path (LogError filename reason) =
     (filename = name_of file_path \<and> reason \<noteq> [])"
| "outcome_of file_path ev = False"

definition counts_match :: "run_state \<Rightarrow> bool" where
  \<comment> \<open>The dictionary holds, for each category, the number of moves logged into it, and
      no entry for a category without one.\<close>
  "counts_match st \<longleftrightarrow>
     (\<forall>k. map_of (rs_counts st) k =
        (if moves_into k (rs_log st) = 0 then None else Some (moves_into k (rs_log st))))"

section \<open>Sample inputs\<close>

text \<open>
  A platform that refuses nothing; one that refuses every rename and copy and the listing
  of one directory; one where every file is in use, so that it can be read but neither
  renamed nor removed; and a desktop whose Documents folder already holds a report.
\<close>

definition no_faults :: os_faults where
  "no_faults = \<lparr>list_denied = (\<lambda>d. False), mkdir_denied = (\<lambda>p. False),
                 rename_fault = (\<lambda>src dst. None), copy_fault = (\<lambda>src dst. None),
                 unlink_fault = (\<lambda>src. None)\<rparr>"



definition report_folder :: filesystem where
  "report_folder =
     [([''d''], Dir), ([''d'', ''report.pdf''], File ''new''), ([''d'', ''Documents''], Dir),
      ([''d'', ''Documents'', ''report.pdf''], File ''old'')]"


definition images_blocked :: filesystem where
  \<comment> \<open>A desktop where a regular file holds the name of the Images folder.\<close>
  "images_blocked =
     [([''d''], Dir), ([''d'', ''photo.JPG''], File ''p''),
      ([''d'', ''Images''], File ''not a folder''), ([''d'', ''notes''], File ''n'')]"


section \<open>Properties of the categorizer\<close>

subsection \<open>Suffix, stem and the table\<close>

lemma rfind_absent: "c \<notin> set xs \<Longrightarrow> rfind c xs = - 1"
  by (induction xs) (auto simp: Let_def)

lemma rfind_last: "c \<notin> set post \<Longrightarrow> rfind c (pre @ c # post) = int (length pre)"
  by (induction pre) (simp_all add: Let_def rfind_absent)

lemma suffix_of_no_dot: "CHR ''.'' \<notin> set name \<Longrightarrow> suffix_of name = []"
  by (simp add: suffix_of_def rfind_absent)

lemma suffix_of_last_dot:
  "CHR ''.'' \<notin> set post \<Longrightarrow>
   suffix_of (pre @ CHR ''.'' # post) = (if pre = [] \<or> post = [] then [] else CHR ''.'' # post)"
  by (auto simp: suffix_of_def rfind_last)





lemma search_first:
  "i < length tbl \<Longrightarrow> e \<in> set (snd (tbl ! i)) \<Longrightarrow> \<forall>j<i. e \<notin> set (snd (tbl ! j)) \<Longrightarrow>
   search_categories e tbl = fst (tbl ! i)"
proof (induction tbl arbitrary: i)
  case Nil
  then show ?case by simp
next
  case (Cons a tbl)
  obtain c es where a: "a = (c, es)" by (cases a)
  show ?case
  proof (cases i)
    case 0
    with Cons.prems a show ?thesis by simp
  next
    case (Suc i')
    from Cons.prems(3) Suc have "e \<notin> set (snd ((a # tbl) ! 0))" by blast
    with a have notin: "e \<notin> set es" by simp
    have "\<forall>j<i'. e \<notin> set (snd (tbl ! j))"
    proof (intro allI impI)
      fix j assume "j < i'"
      then have "Suc j < i" using Suc by simp
      with Cons.prems(3) have "e \<notin> set (snd ((a # tbl) ! Suc j))" by blast
      then show "e \<notin> set (snd (tbl ! j))" by simp
    qed
    with Cons.IH [of i'] Cons.prems Suc have "search_categories e tbl = fst (tbl ! i')" by simp
    with a notin Suc show ?thesis by simp
  qed
qed

lemma search_none:
  "\<forall>i<length tbl. e \<notin> set (snd (tbl ! i)) \<Longrightarrow> search_categories e tbl = ''Miscellaneous''"
proof (induction tbl)
  case Nil
  then show ?case by simp
next
  case (Cons a tbl)
  obtain c es where a: "a = (c, es)" by (cases a)
  from Cons.prems have "e \<notin> set (snd ((a # tbl) ! 0))" by blast
  with a have notin: "e \<notin> set es" by simp
  have "\<forall>i<length tbl. e \<notin> set (snd (tbl ! i))"
  proof (intro allI impI)
    fix i assume "i < length tbl"
    then have "Suc i < length (a # tbl)" by simp
    with Cons.prems have "e \<notin> set (snd ((a # tbl) ! Suc i))" by blast
    then show "e \<notin> set (snd (tbl ! i))" by simp
  qed
  with Cons.IH have "search_categories e tbl = ''Miscellaneous''" by simp
  with a notin show ?case by simp
qed






subsection \<open>Extension and first match\<close>

text \<open>
  Claim C1, as the code has it. The extension of a name is the part from its last dot
  onward, and it is empty when the name has no dot, when nothing follows the last dot, and
  also when nothing precedes it (pathlib takes a leading dot as part of the stem). The
  lower-cased extension decides the category: an empty one gives Miscellaneous, otherwise
  the first entry of the table, in declaration order, whose list contains it, and
  Miscellaneous when no entry does.
\<close>

theorem categorize_extension_first_match:
  "(CHR ''.'' \<notin> set name \<longrightarrow> suffix_of name = []) \<and>
   (CHR ''.'' \<notin> set post \<longrightarrow>
      suffix_of (pre @ CHR ''.'' # post) = (if pre = [] \<or> post = [] then [] else CHR ''.'' # post)) \<and>
   (lower (suffix_of (name_of p)) = [] \<longrightarrow> categorize_file p = ''Miscellaneous'') \<and>
   (lower (suffix_of (name_of p)) \<noteq> [] \<and> i < length CATEGORIES \<and>
    lower (suffix_of (name_of p)) \<in> set (snd (CATEGORIES ! i)) \<and>
    (\<forall>j<i. lower (suffix_of (name_of p)) \<notin> set (snd (CATEGORIES ! j))) \<longrightarrow>
      categorize_file p = fst (CATEGORIES ! i)) \<and>
   ((\<forall>i<length CATEGORIES. lower (suffix_of (name_of p)) \<notin> set (snd (CATEGORIES ! i))) \<longrightarrow>
      categorize_file p = ''Miscellaneous'')"
proof (intro conjI impI)
  assume "CHR ''.'' \<notin> set name"
  then show "suffix_of name = []" by (rule suffix_of_no_dot)
next
  assume "CHR ''.'' \<notin> set post"
  then show "suffix_of (pre @ CHR ''.'' # post) =
      (if pre = [] \<or> post = [] then [] else CHR ''.'' # post)"
    by (rule suffix_of_last_dot)
next
  assume "lower (suffix_of (name_of p)) = []"
  then show "categorize_file p = ''Miscellaneous''" by (simp add: categorize_file_def)
next
  assume h: "lower (suffix_of (name_of p)) \<noteq> [] \<and> i < length CATEGORIES \<and>
    lower (suffix_of (name_of p)) \<in> set (snd (CATEGORIES ! i)) \<and>
    (\<forall>j<i. lower (suffix_of (name_of p)) \<notin> set (snd (CATEGORIES ! j)))"
  then have "search_categories (lower (suffix_of (name_of p))) CATEGORIES = fst (CATEGORIES ! i)"
    by (intro search_first) simp_all
  with h show "categorize_file p = fst (CATEGORIES ! i)" by (simp add: categorize_file_def)
next
  assume "\<forall>i<length CATEGORIES. lower (suffix_of (name_of p)) \<notin> set (snd (CATEGORIES ! i))"
  then have "search_categories (lower (suffix_of (name_of p))) CATEGORIES = ''Miscellaneous''"
    by (rule search_none)
  then show "categorize_file p = ''Miscellaneous''" by (simp add: categorize_file_def Let_def)
qed

theorem categorize_extension_first_match_witness:
  "suffix_of ''notes'' = [] \<and> suffix_of ''archive.tar.gz'' = ''.gz'' \<and>
   categorize_file [''d'', ''archive.tar.gz''] = ''Archives'' \<and>
   categorize_file [''d'', ''notes''] = ''Miscellaneous''"
proof -
  let ?p = "[''d'', ''archive.tar.gz'']"
  have ext: "lower (suffix_of (name_of ?p)) = ''.gz''"
    by (simp add: name_of_def suffix_of_def lower_def lower_char_def)
  have earlier: "\<forall>j<4. ''.gz'' \<notin> set (snd (CATEGORIES ! j))"
  proof (intro allI impI)
    fix j :: nat
    assume "j < 4"
    then consider "j = 0" | "j = 1" | "j = 2" | "j = 3" by linarith
    then show "''.gz'' \<notin> set (snd (CATEGORIES ! j))"
      by cases (simp_all add: CATEGORIES_def)
  qed
  have here: "(4::nat) < length CATEGORIES \<and> ''.gz'' \<in> set (snd (CATEGORIES ! 4)) \<and>
      fst (CATEGORIES ! 4) = ''Archives''"
    by (simp add: CATEGORIES_def)
  have nodot: "CHR ''.'' \<notin> set ''notes''" "CHR ''.'' \<notin> set ''gz''" by simp_all
  have empty: "lower (suffix_of (name_of [''d'', ''notes''])) = []"
    by (simp add: name_of_def suffix_of_def lower_def)
  from categorize_extension_first_match
         [where name = "''notes''" and pre = "''archive.tar''" and post = "''gz''"
            and p = ?p and i = 4]
       ext earlier here nodot
  have a: "suffix_of ''notes'' = [] \<and> suffix_of ''archive.tar.gz'' = ''.gz'' \<and>
      categorize_file ?p = ''Archives''"
    by simp
  from categorize_extension_first_match [where p = "[''d'', ''notes'']"] empty
  have b: "categorize_file [''d'', ''notes''] = ''Miscellaneous''" by blast
  from a b show ?thesis by simp
qed

text \<open>
  Claim C1 as written also gives a name such as \<^verbatim>\<open>.py\<close>, whose only dot leads, the
  extension \<^verbatim>\<open>.py\<close> and the category Code. The code gives it no extension and the
  category Miscellaneous.
\<close>

theorem leading_dot_name_counterexample:
  "suffix_of ''.py'' \<noteq> ''.py'' \<and> categorize_file [''.py''] \<noteq> ''Code''"
  by (simp add: categorize_file_def name_of_def suffix_of_def lower_def)

subsection \<open>Any casing of a table extension\<close>



section \<open>Properties of the mover\<close>

subsection \<open>The search for a free name\<close>















subsection \<open>Conflict resolution\<close>



subsection \<open>One rename, or the source kept\<close>




section \<open>Properties of the folder manager and the scanner\<close>

lemma mkdir_exist_ok_dir: "is_dir fs p \<Longrightarrow> mkdir_exist_ok flt fs p = Inr fs"
  by (simp add: mkdir_exist_ok_def os_mkdir_def is_dir_def path_exists_def)

lemma mkdir_exist_ok_result:
  "mkdir_exist_ok flt fs p = Inr fs1 \<Longrightarrow> is_dir fs1 p"
  by (auto simp: mkdir_exist_ok_def os_mkdir_def is_dir_def path_exists_def map_add_def
      split: sum.splits exn.splits if_splits)


text \<open>
  Claim C8. When a call of \<^verbatim>\<open>create_category_folder\<close> succeeds, the folder is a
  directory afterwards, and a second call with the same arguments succeeds, returns the
  same path, the base path joined with the category name, and changes nothing. A call
  for a folder that is already a directory succeeds without a change.
\<close>

theorem create_category_folder_idempotent:
  "(create_category_folder flt fs base_path category_name = Inr (fs', folder_path) \<longrightarrow>
      folder_path = joinpath base_path category_name \<and> is_dir fs' folder_path \<and>
      create_category_folder flt fs' base_path category_name = Inr (fs', folder_path)) \<and>
   (is_dir fs (joinpath base_path category_name) \<longrightarrow>
      create_category_folder flt fs base_path category_name =
        Inr (fs, joinpath base_path category_name))"
proof (rule conjI; rule impI)
  assume first: "create_category_folder flt fs base_path category_name = Inr (fs', folder_path)"
  then have p: "folder_path = joinpath base_path category_name"
    and mk: "mkdir_exist_ok flt fs (joinpath base_path category_name) = Inr fs'"
    by (auto simp: create_category_folder_def Let_def split: sum.splits)
  from mk have d: "is_dir fs' (joinpath base_path category_name)"
    by (rule mkdir_exist_ok_result)
  then have "mkdir_exist_ok flt fs' (joinpath base_path category_name) = Inr fs'"
    by (rule mkdir_exist_ok_dir)
  then have "create_category_folder flt fs' base_path category_name = Inr (fs', folder_path)"
    by (simp add: create_category_folder_def Let_def p)
  with p d show "folder_path = joinpath base_path category_name \<and> is_dir fs' folder_path \<and>
      create_category_folder flt fs' base_path category_name = Inr (fs', folder_path)"
    by simp
next
  assume "is_dir fs (joinpath base_path category_name)"
  then show "create_category_folder flt fs base_path category_name =
      Inr (fs, joinpath base_path category_name)"
    by (simp add: create_category_folder_def Let_def mkdir_exist_ok_dir)
qed

theorem create_category_folder_idempotent_witness:
  "create_category_folder no_faults report_folder [''d''] ''Images'' =
     Inr (report_folder @ [([''d'', ''Images''], Dir)], [''d'', ''Images'']) \<and>
   create_category_folder no_faults (report_folder @ [([''d'', ''Images''], Dir)]) [''d''] ''Images'' =
     Inr (report_folder @ [([''d'', ''Images''], Dir)], [''d'', ''Images'']) \<and>
   create_category_folder no_faults report_folder [''d''] ''Documents'' =
     Inr (report_folder, [''d'', ''Documents''])"
proof -
  have first: "create_category_folder no_faults report_folder [''d''] ''Images'' =
      Inr (report_folder @ [([''d'', ''Images''], Dir)], [''d'', ''Images''])"
    by (simp add: create_category_folder_def Let_def mkdir_exist_ok_def os_mkdir_def
        joinpath_def parent_of_def path_exists_def is_dir_def no_faults_def report_folder_def)
  have isdir: "is_dir report_folder (joinpath [''d''] ''Documents'')"
    by (simp add: joinpath_def is_dir_def report_folder_def)
  note again = create_category_folder_idempotent
         [where flt = no_faults and fs = report_folder and base_path = "[''d'']"
            and category_name = "''Images''"
            and fs' = "report_folder @ [([''d'', ''Images''], Dir)]"
            and folder_path = "[''d'', ''Images'']", THEN conjunct1, rule_format, OF first]
  from again have second: "create_category_folder no_faults (report_folder @ [([''d'', ''Images''], Dir)])
      [''d''] ''Images'' = Inr (report_folder @ [([''d'', ''Images''], Dir)], [''d'', ''Images''])"
    by (elim conjE)
  from create_category_folder_idempotent
         [where flt = no_faults and fs = report_folder and base_path = "[''d'']"
            and category_name = "''Documents''", THEN conjunct2, rule_format, OF isdir]
  have third: "create_category_folder no_faults report_folder [''d''] ''Documents'' =
      Inr (report_folder, [''d'', ''Documents''])"
    by (simp add: joinpath_def)
  from first second third show ?thesis by simp
qed





section \<open>Properties of the organizer\<close>

subsection \<open>One pass of the loop, and the loop\<close>

lemma handler_message_nonempty: "handler_message e \<noteq> []"
  by (simp add: handler_message_def)

lemma process_file_cases:
  "(\<exists>fs'. process_file flt desktop_path file_path st =
       st\<lparr>rs_fs := fs',
          rs_moved := rs_moved st + 1,
          rs_counts := dict_set (categorize_file file_path)
                         (dict_get (rs_counts st) (categorize_file file_path) 0 + 1)
                         (rs_counts st),
          rs_log := rs_log st @ [LogFileMove (name_of file_path) (categorize_file file_path)]\<rparr>) \<or>
   (\<exists>fs' reason. reason \<noteq> [] \<and>
       process_file flt desktop_path file_path st =
         st\<lparr>rs_fs := fs',
            rs_failed := rs_failed st + 1,
            rs_log := rs_log st @ [LogError (name_of file_path) reason]\<rparr>)"
proof (cases "create_category_folder flt (rs_fs st) desktop_path (categorize_file file_path)")
  case (Inl e)
  then have "process_file flt desktop_path file_path st =
      st\<lparr>rs_fs := rs_fs st, rs_failed := rs_failed st + 1,
         rs_log := rs_log st @ [LogError (name_of file_path) (handler_message e)]\<rparr>"
    by (simp add: process_file_def Let_def)
  with handler_message_nonempty [of e] show ?thesis by blast
next
  case (Inr r)
  obtain fs1 category_folder where r: "r = (fs1, category_folder)" by (cases r)
  obtain fs2 success error_msg
    where mv: "move_file flt fs1 file_path category_folder = (fs2, success, error_msg)"
    by (cases "move_file flt fs1 file_path category_folder") auto
  show ?thesis
  proof (cases success)
    case True
    with Inr r mv have "process_file flt desktop_path file_path st =
        st\<lparr>rs_fs := fs2,
           rs_moved := rs_moved st + 1,
           rs_counts := dict_set (categorize_file file_path)
                          (dict_get (rs_counts st) (categorize_file file_path) 0 + 1)
                          (rs_counts st),
           rs_log := rs_log st @ [LogFileMove (name_of file_path) (categorize_file file_path)]\<rparr>"
      by (simp add: process_file_def Let_def)
    then show ?thesis by blast
  next
    case False
    let ?reason = "case error_msg of None \<Rightarrow> ''Failed to move file''
                   | Some m \<Rightarrow> if m = [] then ''Failed to move file'' else m"
    from False Inr r mv have "process_file flt desktop_path file_path st =
        st\<lparr>rs_fs := fs2, rs_failed := rs_failed st + 1,
           rs_log := rs_log st @ [LogError (name_of file_path) ?reason]\<rparr>"
      by (simp add: process_file_def Let_def)
    moreover have "?reason \<noteq> []" by (simp split: option.splits)
    ultimately show ?thesis by blast
  qed
qed


lemma map_of_dict_set: "map_of (dict_set k v d) = (map_of d)(k \<mapsto> v)"
  by (induction d) (auto simp: fun_eq_iff)

lemma keys_dict_set: "map fst (dict_set k v d) = (if k \<in> set (map fst d) then map fst d else map fst d @ [k])"
  by (induction d) force+

lemma distinct_dict_set: "distinct (map fst d) \<Longrightarrow> distinct (map fst (dict_set k v d))"
  by (simp add: keys_dict_set)

lemma process_file_step:
  "\<exists>ev. outcome_of file_path ev \<and>
     rs_log (process_file flt desktop_path file_path st) = rs_log st @ [ev] \<and>
     rs_moved (process_file flt desktop_path file_path st) =
       rs_moved st + (if is_move ev then 1 else 0) \<and>
     rs_failed (process_file flt desktop_path file_path st) =
       rs_failed st + (if is_error ev then 1 else 0) \<and>
     rs_counts (process_file flt desktop_path file_path st) =
       (if is_move ev
        then dict_set (categorize_file file_path)
               (dict_get (rs_counts st) (categorize_file file_path) 0 + 1) (rs_counts st)
        else rs_counts st)"
  using process_file_cases [of flt desktop_path file_path st]
proof (elim disjE exE conjE)
  fix fs'
  assume "process_file flt desktop_path file_path st =
       st\<lparr>rs_fs := fs',
          rs_moved := rs_moved st + 1,
          rs_counts := dict_set (categorize_file file_path)
                         (dict_get (rs_counts st) (categorize_file file_path) 0 + 1)
                         (rs_counts st),
          rs_log := rs_log st @ [LogFileMove (name_of file_path) (categorize_file file_path)]\<rparr>"
  then show ?thesis
    by (intro exI [of _ "LogFileMove (name_of file_path) (categorize_file file_path)"]) simp
next
  fix fs' reason
  assume "reason \<noteq> []" and "process_file flt desktop_path file_path st =
         st\<lparr>rs_fs := fs',
            rs_failed := rs_failed st + 1,
            rs_log := rs_log st @ [LogError (name_of file_path) reason]\<rparr>"
  then show ?thesis
    by (intro exI [of _ "LogError (name_of file_path) reason"]) simp
qed

lemma process_files_trace:
  "\<exists>evs. rs_log (process_files flt desktop_path files st) = rs_log st @ evs \<and>
     list_all2 outcome_of files evs \<and>
     rs_moved (process_files flt desktop_path files st) = rs_moved st + length (filter is_move evs) \<and>
     rs_failed (process_files flt desktop_path files st) =
       rs_failed st + length (filter is_error evs)"
proof (induction files arbitrary: st)
  case Nil
  show ?case by simp
next
  case (Cons file_path files)
  let ?st = "process_file flt desktop_path file_path st"
  from process_file_step [of file_path flt desktop_path st]
  obtain ev where ev: "outcome_of file_path ev" "rs_log ?st = rs_log st @ [ev]"
    "rs_moved ?st = rs_moved st + (if is_move ev then 1 else 0)"
    "rs_failed ?st = rs_failed st + (if is_error ev then 1 else 0)"
    by blast
  from Cons.IH [of ?st]
  obtain evs where evs: "rs_log (process_files flt desktop_path files ?st) = rs_log ?st @ evs"
    "list_all2 outcome_of files evs"
    "rs_moved (process_files flt desktop_path files ?st) = rs_moved ?st + length (filter is_move evs)"
    "rs_failed (process_files flt desktop_path files ?st) =
       rs_failed ?st + length (filter is_error evs)"
    by blast
  from ev evs show ?case by (intro exI [of _ "ev # evs"]) simp
qed



lemma process_files_invariant:
  assumes step: "\<And>file_path st. P st \<Longrightarrow> P (process_file flt desktop_path file_path st)"
    and init: "P st"
  shows "P (process_files flt desktop_path files st)"
  using init by (induction files arbitrary: st) (simp_all add: step)


lemma distinct_counts_step:
  assumes "distinct (map fst (rs_counts st))"
  shows "distinct (map fst (rs_counts (process_file flt desktop_path file_path st)))"
proof -
  from process_file_step [of file_path flt desktop_path st]
  obtain ev where "rs_counts (process_file flt desktop_path file_path st) =
       (if is_move ev
        then dict_set (categorize_file file_path)
               (dict_get (rs_counts st) (categorize_file file_path) 0 + 1) (rs_counts st)
        else rs_counts st)"
    by blast
  with assms show ?thesis by (simp add: distinct_dict_set)
qed

lemma counts_match_step:
  assumes "counts_match st"
  shows "counts_match (process_file flt desktop_path file_path st)"
proof -
  let ?st = "process_file flt desktop_path file_path st"
  let ?c = "categorize_file file_path"
  from process_file_step [of file_path flt desktop_path st]
  obtain ev where ev: "outcome_of file_path ev" "rs_log ?st = rs_log st @ [ev]"
    "rs_counts ?st =
       (if is_move ev
        then dict_set ?c (dict_get (rs_counts st) ?c 0 + 1) (rs_counts st)
        else rs_counts st)"
    by blast
  show ?thesis
  proof (cases ev)
    case (LogFileMove filename category)
    with ev(1) have cat: "category = ?c" by simp
    have get: "dict_get (rs_counts st) ?c 0 = moves_into ?c (rs_log st)"
      using assms by (simp add: counts_match_def dict_get_def)
    from ev LogFileMove cat get assms show ?thesis
      by (simp add: counts_match_def moves_into_def map_of_dict_set)
  next
    case (LogError filename reason)
    with ev assms show ?thesis by (simp add: counts_match_def moves_into_def)
  next
    case LogStart
    with ev(1) show ?thesis by simp
  next
    case (LogSummary stats)
    with ev(1) show ?thesis by simp
  qed
qed

lemma sample_run:
  "organize no_faults images_blocked [''d''] =
     Inr ([([''d''], Dir), ([''d'', ''photo.JPG''], File ''p''),
           ([''d'', ''Miscellaneous'', ''Images''], File ''not a folder''),
           ([''d'', ''Miscellaneous'', ''notes''], File ''n''),
           ([''d'', ''Miscellaneous''], Dir)],
          \<lparr>total_files = 3, files_moved = 2, files_failed = 1,
             category_counts = [(''Miscellaneous'', 2)]\<rparr>,
          [LogStart,
           LogError ''photo.JPG'' ''OS error (file may be in use): File exists: /d/Images'',
           LogFileMove ''Images'' ''Miscellaneous'',
           LogFileMove ''notes'' ''Miscellaneous'',
           LogSummary \<lparr>total_files = 3, files_moved = 2, files_failed = 1,
                         category_counts = [(''Miscellaneous'', 2)]\<rparr>])"
  by (simp add: organize_def scan_files_def iterdir_def process_file_def
      create_category_folder_def mkdir_exist_ok_def os_mkdir_def move_file_def shutil_move_def
      move_destination_def joinpath_def name_of_def parent_of_def path_exists_def is_dir_def
      is_file_def rename_path_def starts_with_def categorize_file_def suffix_of_def lower_def
      lower_char_def CATEGORIES_def handler_message_def dict_get_def str_path_def no_faults_def
      images_blocked_def Let_def)

lemma organize_unfolded:
  assumes "organize flt fs desktop_path = Inr (fs', stats, evs)"
  obtains files st where "scan_files flt fs desktop_path = Inr files"
    and "st = process_files flt desktop_path files
                \<lparr>rs_fs = fs, rs_moved = 0, rs_failed = 0, rs_counts = [], rs_log = [LogStart]\<rparr>"
    and "stats = \<lparr>total_files = length files, files_moved = rs_moved st,
                   files_failed = rs_failed st, category_counts = rs_counts st\<rparr>"
    and "evs = rs_log st @ [LogSummary stats]" and "fs' = rs_fs st"
proof (cases "scan_files flt fs desktop_path")
  case (Inl e)
  with assms show ?thesis by (simp add: organize_def)
next
  case (Inr files)
  with assms that [of files] show ?thesis by (auto simp: organize_def Let_def)
qed


lemma moves_into_snoc_summary: "moves_into k (evs @ [LogSummary stats]) = moves_into k evs"
  by (simp add: moves_into_def)

lemma moves_into_start: "moves_into k (LogStart # evs) = moves_into k evs"
  by (simp add: moves_into_def)

lemma moved_event_has_file:
  assumes "list_all2 outcome_of files per_file" and "moves_into k per_file \<noteq> 0"
  shows "\<exists>file_path\<in>set files. categorize_file file_path = k \<and>
           LogFileMove (name_of file_path) k \<in> set per_file"
proof -
  from assms(2) have "filter (is_move_into k) per_file \<noteq> []" by (simp add: moves_into_def)
  then obtain ev where ev: "ev \<in> set per_file" "is_move_into k ev"
    by (auto simp: filter_empty_conv)
  from ev(2) obtain filename where shape: "ev = LogFileMove filename k" by (cases ev) simp_all
  from ev(1) obtain i where i: "i < length per_file" "per_file ! i = ev"
    by (auto simp: in_set_conv_nth)
  with assms(1) have len: "i < length files" and out: "outcome_of (files ! i) ev"
    by (auto simp: list_all2_conv_all_nth)
  from out shape have "filename = name_of (files ! i)" "categorize_file (files ! i) = k"
    by simp_all
  with ev(1) shape len show ?thesis by (intro bexI [of _ "files ! i"]) simp_all
qed

subsection \<open>Statistics\<close>





text \<open>
  Claim C10. In the statistics of a run the keys of \<^verbatim>\<open>category_counts\<close> are distinct,
  each value is at least 1 and is the number of moves logged into that category, some
  scanned file of that category was moved, and a category with no logged move is not a
  key.
\<close>

theorem category_counts_only_moved:
  "organize flt fs desktop_path = Inr (fs', stats, evs) \<Longrightarrow>
   distinct (map fst (category_counts stats)) \<and>
   (\<forall>(k, v) \<in> set (category_counts stats).
      1 \<le> v \<and> v = moves_into k evs \<and>
      (\<exists>files file_path.
         scan_files flt fs desktop_path = Inr files \<and> file_path \<in> set files \<and>
         categorize_file file_path = k \<and> LogFileMove (name_of file_path) k \<in> set evs)) \<and>
   (\<forall>k. moves_into k evs = 0 \<longrightarrow> k \<notin> fst ` set (category_counts stats))"
proof -
  assume run: "organize flt fs desktop_path = Inr (fs', stats, evs)"
  let ?init = "\<lparr>rs_fs = fs, rs_moved = 0, rs_failed = 0, rs_counts = [], rs_log = [LogStart]\<rparr>"
  from run obtain files st where scan: "scan_files flt fs desktop_path = Inr files"
    and st: "st = process_files flt desktop_path files ?init"
    and stats: "stats = \<lparr>total_files = length files, files_moved = rs_moved st,
                   files_failed = rs_failed st, category_counts = rs_counts st\<rparr>"
    and evs: "evs = rs_log st @ [LogSummary stats]"
    by (rule organize_unfolded)
  from process_files_trace [of flt desktop_path files ?init] st
  obtain per_file where per: "rs_log st = LogStart # per_file"
    "list_all2 outcome_of files per_file"
    by auto
  have dist: "distinct (map fst (rs_counts st))"
    unfolding st by (rule process_files_invariant) (simp_all add: distinct_counts_step)
  have "counts_match st"
    unfolding st
  proof (rule process_files_invariant)
    show "counts_match ?init" by (simp add: counts_match_def moves_into_def)
  qed (rule counts_match_step)
  then have cm: "\<And>k. map_of (rs_counts st) k =
      (if moves_into k evs = 0 then None else Some (moves_into k evs))"
    by (simp add: counts_match_def evs moves_into_snoc_summary)
  have count: "\<And>k. moves_into k evs = moves_into k per_file"
    by (simp add: evs per(1) moves_into_snoc_summary moves_into_start)
  have entries: "\<forall>(k, v) \<in> set (rs_counts st).
      1 \<le> v \<and> v = moves_into k evs \<and>
      (\<exists>files file_path.
         scan_files flt fs desktop_path = Inr files \<and> file_path \<in> set files \<and>
         categorize_file file_path = k \<and> LogFileMove (name_of file_path) k \<in> set evs)"
  proof (intro ballI, clarify)
    fix k v
    assume "(k, v) \<in> set (rs_counts st)"
    with dist have "map_of (rs_counts st) k = Some v" by simp
    with cm [of k] have nz: "moves_into k evs \<noteq> 0" and v: "v = moves_into k evs"
      by (auto split: if_splits)
    from nz count have "moves_into k per_file \<noteq> 0" by simp
    from moved_event_has_file [OF per(2) this]
    obtain file_path where f: "file_path \<in> set files" "categorize_file file_path = k"
      "LogFileMove (name_of file_path) k \<in> set per_file"
      by blast
    from f(3) have "LogFileMove (name_of file_path) k \<in> set evs" by (simp add: evs per(1))
    with nz v scan f(1,2)
    show "1 \<le> v \<and> v = moves_into k evs \<and>
      (\<exists>files file_path.
         scan_files flt fs desktop_path = Inr files \<and> file_path \<in> set files \<and>
         categorize_file file_path = k \<and> LogFileMove (name_of file_path) k \<in> set evs)"
      by auto
  qed
  have absent: "\<forall>k. moves_into k evs = 0 \<longrightarrow> k \<notin> fst ` set (rs_counts st)"
    using cm by (auto simp: map_of_eq_None_iff [symmetric])
  from dist entries absent stats show ?thesis by simp
qed

theorem category_counts_only_moved_witness:
  "\<exists>fs' stats evs.
     organize no_faults images_blocked [''d''] = Inr (fs', stats, evs) \<and>
     category_counts stats = [(''Miscellaneous'', 2)] \<and>
     moves_into ''Miscellaneous'' evs = 2 \<and>
     ''Images'' \<notin> fst ` set (category_counts stats)"
proof -
  note facts = category_counts_only_moved [OF sample_run]
  from facts [THEN conjunct2, THEN conjunct1]
  have two: "moves_into ''Miscellaneous''
      [LogStart,
       LogError ''photo.JPG'' ''OS error (file may be in use): File exists: /d/Images'',
       LogFileMove ''Images'' ''Miscellaneous'',
       LogFileMove ''notes'' ''Miscellaneous'',
       LogSummary \<lparr>total_files = 3, files_moved = 2, files_failed = 1,
                     category_counts = [(''Miscellaneous'', 2)]\<rparr>] = 2"
    by simp
  have none: "moves_into ''Images''
      [LogStart,
       LogError ''photo.JPG'' ''OS error (file may be in use): File exists: /d/Images'',
       LogFileMove ''Images'' ''Miscellaneous'',
       LogFileMove ''notes'' ''Miscellaneous'',
       LogSummary \<lparr>total_files = 3, files_moved = 2, files_failed = 1,
                     category_counts = [(''Miscellaneous'', 2)]\<rparr>] = 0"
    by (simp add: moves_into_def)
  from facts [THEN conjunct2, THEN conjunct2, rule_format, OF none]
  have absent: "''Images'' \<notin> fst ` set (category_counts
      \<lparr>total_files = 3, files_moved = 2, files_failed = 1,
       category_counts = [(''Miscellaneous'', 2)]\<rparr>)" .
  show ?thesis
    by (intro exI conjI) (rule sample_run, simp, rule two, rule absent)
qed

end
